theory Spec2Isabelle
  imports Main "HOL-Library.Multiset"
begin

section \<open>The connection manager of backend/app/core/websocket_manager.py\<close>

text \<open>
  \<^verbatim>\<open>ConnectionManager\<close> keeps one dictionary, \<^verbatim>\<open>active_connections\<close>, from channel
  names to lists of WebSocket objects. Its methods are embedded as functions that take the
  state before the call and return the outcome of the call with the state after it.

  A WebSocket is compared by identity (\<^verbatim>\<open>list.remove\<close> uses \<^verbatim>\<open>==\<close>, which starlette
  pins to \<^verbatim>\<open>object.__eq__\<close>), so a connection is modelled by the number that identifies
  the object. The dictionary is a map; a channel's value is a list, as in the source, so
  order and repeated entries are kept.

  The model is of calls that run one after the other: what other coroutines do while a
  call is suspended at an \<^verbatim>\<open>await\<close> is outside it. Calls to the logger are left out.
\<close>

type_synonym conn = nat

datatype error = HandshakeError | SendError | ValueError | KeyError | TypeError

text \<open>
  What the manager calls but does not define: \<^verbatim>\<open>websocket.accept()\<close>,
  \<^verbatim>\<open>websocket.send_text(message)\<close> and \<^verbatim>\<open>json.dumps(data, default=str)\<close>. Each is
  a parameter. They run code outside the manager (\<^verbatim>\<open>default=str\<close> calls \<^verbatim>\<open>str\<close> on
  whatever object the payload holds), so each acts on a state \<open>'w\<close> of that outside
  world, which the manager never reads, and either returns or raises. A function that
  leaves \<open>'w\<close> as it is models a pure \<^verbatim>\<open>json.dumps\<close>.
\<close>

record ('w, 'd) env =
  accept :: "conn \<Rightarrow> 'w \<Rightarrow> (error + unit) \<times> 'w"
  send_text :: "conn \<Rightarrow> string \<Rightarrow> 'w \<Rightarrow> (error + unit) \<times> 'w"
  dumps :: "'d \<Rightarrow> 'w \<Rightarrow> (error + string) \<times> 'w"

text \<open>
  The state: the manager's dictionary, the outside world's state, and \<open>wire\<close>, the list of
  all calls of \<^verbatim>\<open>send_text\<close> made by \<^verbatim>\<open>broadcast\<close> so far, oldest first, each with the
  connection, the text and whether the call returned (\<open>True\<close>) or raised (\<open>False\<close>).
\<close>

record 'w system =
  active_connections :: "string \<rightharpoonup> conn list"
  world :: 'w
  wire :: "(conn \<times> string \<times> bool) list"

text \<open>\<^verbatim>\<open>__init__\<close>: four channels, each with an empty list.\<close>

definition init :: "'w \<Rightarrow> 'w system" where
  "init w =
     \<lparr>active_connections =
        [''alerts'' \<mapsto> [], ''metrics'' \<mapsto> [], ''network_traffic'' \<mapsto> [], ''logs'' \<mapsto> []],
      world = w, wire = []\<rparr>"

text \<open>
  \<^verbatim>\<open>connect\<close>: the handshake first; an exception of \<^verbatim>\<open>accept\<close> leaves the method at
  once. Then the channel's entry is created when absent, and the connection appended.
\<close>

definition connect ::
  "('w, 'd) env \<Rightarrow> conn \<Rightarrow> string \<Rightarrow> 'w system \<Rightarrow> (error + unit) \<times> 'w system" where
  "connect e websocket channel s =
     (case accept e websocket (world s) of
        (Inl err, w') \<Rightarrow> (Inl err, s\<lparr>world := w'\<rparr>)
      | (Inr _, w') \<Rightarrow>
          (let conns0 = active_connections s;
               conns1 = (if conns0 channel = None then conns0(channel \<mapsto> []) else conns0)
           in case conns1 channel of
                None \<Rightarrow> (Inl KeyError, s\<lparr>active_connections := conns1, world := w'\<rparr>)
              | Some xs \<Rightarrow>
                  (Inr (), s\<lparr>active_connections := conns1(channel \<mapsto> xs @ [websocket]),
                             world := w'\<rparr>)))"

text \<open>
  \<^verbatim>\<open>list.remove(x)\<close>: deletes the first element equal to \<^verbatim>\<open>x\<close>, and raises
  \<^verbatim>\<open>ValueError\<close> when there is none.
\<close>

fun list_remove :: "'a \<Rightarrow> 'a list \<Rightarrow> error + 'a list" where
  "list_remove x [] = Inl ValueError"
| "list_remove x (y # ys) =
     (if y = x then Inr ys
      else (case list_remove x ys of Inl err \<Rightarrow> Inl err | Inr zs \<Rightarrow> Inr (y # zs)))"

text \<open>
  \<^verbatim>\<open>disconnect\<close>: nothing for a channel that is not a key; otherwise \<^verbatim>\<open>remove\<close>, with
  \<^verbatim>\<open>except ValueError: pass\<close>. Any other exception would leave the method.
\<close>

definition disconnect :: "conn \<Rightarrow> string \<Rightarrow> 'w system \<Rightarrow> (error + unit) \<times> 'w system" where
  "disconnect websocket channel s =
     (case active_connections s channel of
        None \<Rightarrow> (Inr (), s)
      | Some xs \<Rightarrow>
          (case list_remove websocket xs of
             Inl ValueError \<Rightarrow> (Inr (), s)
           | Inl err \<Rightarrow> (Inl err, s)
           | Inr ys \<Rightarrow>
               (Inr (), s\<lparr>active_connections := (active_connections s)(channel \<mapsto> ys)\<rparr>)))"

text \<open>
  The first loop of \<^verbatim>\<open>broadcast\<close>: one \<^verbatim>\<open>send_text\<close> per element of the channel's
  list, in order; \<^verbatim>\<open>except Exception\<close> catches whatever the call raises and appends the
  connection to \<^verbatim>\<open>disconnected_clients\<close>. The accumulator is
  (\<^verbatim>\<open>disconnected_clients\<close>, the wire, the transport state).
\<close>

fun sweep ::
  "('w, 'd) env \<Rightarrow> string \<Rightarrow> conn list \<Rightarrow> conn list \<times> (conn \<times> string \<times> bool) list \<times> 'w
     \<Rightarrow> conn list \<times> (conn \<times> string \<times> bool) list \<times> 'w" where
  "sweep e message [] acc = acc"
| "sweep e message (connection # rest) (disconnected_clients, log, w) =
     (case send_text e connection message w of
        (Inl err, w') \<Rightarrow>
          sweep e message rest
            (disconnected_clients @ [connection], log @ [(connection, message, False)], w')
      | (Inr _, w') \<Rightarrow>
          sweep e message rest (disconnected_clients, log @ [(connection, message, True)], w'))"

text \<open>The second loop: \<^verbatim>\<open>for client in disconnected_clients: self.disconnect(client, channel)\<close>.\<close>

fun evict :: "conn list \<Rightarrow> string \<Rightarrow> 'w system \<Rightarrow> (error + unit) \<times> 'w system" where
  "evict [] channel s = (Inr (), s)"
| "evict (client # rest) channel s =
     (case disconnect client channel s of
        (Inl err, s') \<Rightarrow> (Inl err, s')
      | (Inr _, s') \<Rightarrow> evict rest channel s')"

text \<open>
  \<^verbatim>\<open>broadcast\<close>: returns at once for a channel that is not a key; serialises, once (an
  exception of \<^verbatim>\<open>json.dumps\<close> leaves the method before any send); sweeps from the state
  the serialisation left; evicts.
\<close>

definition broadcast ::
  "('w, 'd) env \<Rightarrow> string \<Rightarrow> 'd \<Rightarrow> 'w system \<Rightarrow> (error + unit) \<times> 'w system" where
  "broadcast e channel data s =
     (if active_connections s channel = None then (Inr (), s)
      else
        (case dumps e data (world s) of
           (Inl err, w0) \<Rightarrow> (Inl err, s\<lparr>world := w0\<rparr>)
         | (Inr message, w0) \<Rightarrow>
             (case active_connections s channel of
                None \<Rightarrow> (Inl KeyError, s\<lparr>world := w0\<rparr>)
              | Some connections \<Rightarrow>
                  (case sweep e message connections ([], wire s, w0) of
                     (disconnected_clients, log, w') \<Rightarrow>
                       evict disconnected_clients channel (s\<lparr>world := w', wire := log\<rparr>)))))"

text \<open>\<^verbatim>\<open>get_connection_count\<close>: \<^verbatim>\<open>len(self.active_connections.get(channel, []))\<close>.\<close>

definition get_connection_count :: "string \<Rightarrow> 'w system \<Rightarrow> (error + int) \<times> 'w system" where
  "get_connection_count channel s =
     (Inr (int (length (case active_connections s channel of None \<Rightarrow> [] | Some xs \<Rightarrow> xs))), s)"

text \<open>\<^verbatim>\<open>get_all_connection_counts\<close>: the dictionary with each list replaced by its length.\<close>

definition get_all_connection_counts ::
  "'w system \<Rightarrow> (error + (string \<rightharpoonup> int)) \<times> 'w system" where
  "get_all_connection_counts s =
     (Inr (\<lambda>channel. case active_connections s channel of
                        None \<Rightarrow> None
                      | Some connections \<Rightarrow> Some (int (length connections))), s)"

subsection \<open>Sequences of calls\<close>

text \<open>
  A caller's history is a list of calls. An exception ends the call that raised it, not
  the process: the next call starts from the state the failed call left.
\<close>

datatype 'd call =
    Connect conn string
  | Disconnect conn string
  | Broadcast string 'd
  | GetConnectionCount string
  | GetAllConnectionCounts

fun step :: "('w, 'd) env \<Rightarrow> 'd call \<Rightarrow> 'w system \<Rightarrow> 'w system" where
  "step e (Connect c ch) s = snd (connect e c ch s)"
| "step e (Disconnect c ch) s = snd (disconnect c ch s)"
| "step e (Broadcast ch d) s = snd (broadcast e ch d s)"
| "step e (GetConnectionCount ch) s = snd (get_connection_count ch s)"
| "step e GetAllConnectionCounts s = snd (get_all_connection_counts s)"

fun run :: "('w, 'd) env \<Rightarrow> 'd call list \<Rightarrow> 'w system \<Rightarrow> 'w system" where
  "run e [] s = s"
| "run e (c # cs) s = run e cs (step e c s)"

text \<open>The connections registered to a channel: its list, or none when it is not a key.\<close>

definition members :: "'w system \<Rightarrow> string \<Rightarrow> conn list" where
  "members s ch = (case active_connections s ch of None \<Rightarrow> [] | Some xs \<Rightarrow> xs)"

text \<open>Whether one call of \<^verbatim>\<open>send_text\<close> returns, in a given transport state.\<close>

definition send_ok :: "('w, 'd) env \<Rightarrow> conn \<Rightarrow> string \<Rightarrow> 'w \<Rightarrow> bool" where
  "send_ok e c message w = (case fst (send_text e c message w) of Inl _ \<Rightarrow> False | Inr _ \<Rightarrow> True)"

text \<open>Whether the handshake of a connection returns, in a given transport state.\<close>

definition accept_ok :: "('w, 'd) env \<Rightarrow> conn \<Rightarrow> 'w \<Rightarrow> bool" where
  "accept_ok e c w = (case fst (accept e c w) of Inl _ \<Rightarrow> False | Inr _ \<Rightarrow> True)"

text \<open>The connections of the wire entries whose send raised, in the order of the sends.\<close>

definition failed_sends :: "(conn \<times> string \<times> bool) list \<Rightarrow> conn list" where
  "failed_sends log = map fst (filter (\<lambda>a. \<not> snd (snd a)) log)"

text \<open>The wire entries a call added: the wire after it, without the wire before it.\<close>

definition added :: "'w system \<Rightarrow> 'w system \<Rightarrow> (conn \<times> string \<times> bool) list" where
  "added s s' = drop (length (wire s)) (wire s')"

text \<open>The connections handed to \<^verbatim>\<open>connect\<close> in a history, in order.\<close>

fun connected :: "'d call list \<Rightarrow> conn list" where
  "connected [] = []"
| "connected (Connect c ch # cs) = c # connected cs"
| "connected (Disconnect c ch # cs) = connected cs"
| "connected (Broadcast ch d # cs) = connected cs"
| "connected (GetConnectionCount ch # cs) = connected cs"
| "connected (GetAllConnectionCounts # cs) = connected cs"

text \<open>The channel names handed to \<^verbatim>\<open>connect\<close> in a history, in order.\<close>

fun connect_names :: "'d call list \<Rightarrow> string list" where
  "connect_names [] = []"
| "connect_names (Connect c ch # cs) = ch # connect_names cs"
| "connect_names (Disconnect c ch # cs) = connect_names cs"
| "connect_names (Broadcast ch d # cs) = connect_names cs"
| "connect_names (GetConnectionCount ch # cs) = connect_names cs"
| "connect_names (GetAllConnectionCounts # cs) = connect_names cs"

text \<open>Whether a call is a \<^verbatim>\<open>connect\<close> or a \<^verbatim>\<open>broadcast\<close> on the given channel name.\<close>

fun names :: "string \<Rightarrow> 'd call \<Rightarrow> bool" where
  "names ch (Connect c ch') = (ch' = ch)"
| "names ch (Broadcast ch' d) = (ch' = ch)"
| "names ch (Disconnect c ch') = False"
| "names ch (GetConnectionCount ch') = False"
| "names ch GetAllConnectionCounts = False"

definition unseen :: "string \<Rightarrow> 'd call list \<Rightarrow> bool" where
  "unseen ch cs = (filter (names ch) cs = [])"

subsection \<open>The registry as the specification describes it\<close>

text \<open>
  The specification's data model, in its words: a channel owns an unordered collection of
  connections; a connection whose handshake completes is added to its channel's
  collection; an explicit disconnect removes it if present; a broadcast removes the
  connections whose send failed. \<open>spec_step\<close> follows one call from what a client of
  the manager can observe of it (whether \<^verbatim>\<open>connect\<close> returned, which sends failed on
  the wire), and \<open>spec_registered\<close> follows a history from the empty registry.
\<close>

fun spec_step ::
  "('w, 'd) env \<Rightarrow> 'd call \<Rightarrow> 'w system \<Rightarrow> (string \<Rightarrow> conn multiset) \<Rightarrow> (string \<Rightarrow> conn multiset)" where
  "spec_step e (Connect c ch) s A =
     (if accept_ok e c (world s) then A(ch := add_mset c (A ch)) else A)"
| "spec_step e (Disconnect c ch) s A = A(ch := A ch - {#c#})"
| "spec_step e (Broadcast ch d) s A =
     A(ch := A ch - mset (failed_sends (added s (snd (broadcast e ch d s)))))"
| "spec_step e (GetConnectionCount ch) s A = A"
| "spec_step e GetAllConnectionCounts s A = A"

fun spec_registered ::
  "('w, 'd) env \<Rightarrow> 'd call list \<Rightarrow> 'w system \<Rightarrow> (string \<Rightarrow> conn multiset) \<Rightarrow> (string \<Rightarrow> conn multiset)" where
  "spec_registered e [] s A = A"
| "spec_registered e (c # cs) s A = spec_registered e cs (step e c s) (spec_step e c s A)"

subsection \<open>A transport for the examples\<close>

text \<open>
  One instance of the parameters, used where a statement is run on concrete calls: the
  outside state counts the calls made to it (handshakes, sends and serialisations); the
  handshake of connection \<open>0\<close> raises; a send to a connection with an even number
  raises; the payload is a Python \<^verbatim>\<open>str\<close> without characters to escape, which
  \<^verbatim>\<open>json.dumps\<close> puts between double quotes. \<open>strict_env\<close> differs in the payload
  only: it is one that \<^verbatim>\<open>json.dumps\<close> rejects (as it does a dictionary with a tuple for a
  key), so every serialisation raises \<^verbatim>\<open>TypeError\<close>.
\<close>

definition example_env :: "(nat, string) env" where
  "example_env =
     \<lparr>accept = (\<lambda>c w. (if c = 0 then Inl HandshakeError else Inr (), Suc w)),
      send_text = (\<lambda>c message w. (if even c then Inl SendError else Inr (), Suc w)),
      dumps = (\<lambda>d w. (Inr ([CHR 0x22] @ d @ [CHR 0x22]), Suc w))\<rparr>"

definition strict_env :: "(nat, string) env" where
  "strict_env = example_env\<lparr>dumps := (\<lambda>d w. (Inl TypeError, Suc w))\<rparr>"

text \<open>Histories and states of the examples.\<close>

abbreviation two_alerts :: "nat system" where
  "two_alerts \<equiv> run example_env [Connect 1 ''alerts'', Connect 3 ''alerts''] (init 0)"

abbreviation alerts_and_metrics :: "nat system" where
  "alerts_and_metrics \<equiv>
     run example_env [Connect 1 ''alerts'', Connect 2 ''alerts'', Connect 3 ''metrics''] (init 0)"

abbreviation three_alerts :: "nat system" where
  "three_alerts \<equiv>
     run example_env [Connect 1 ''alerts'', Connect 3 ''alerts'', Connect 5 ''alerts''] (init 0)"

abbreviation mixed_alerts :: "nat system" where
  "mixed_alerts \<equiv>
     run example_env [Connect 1 ''alerts'', Connect 2 ''alerts'', Connect 3 ''alerts''] (init 0)"

abbreviation counts_history :: "string call list" where
  "counts_history \<equiv>
     [Connect 1 ''alerts'', Connect 3 ''alerts'', Connect 5 ''metrics'',
      Disconnect 5 ''metrics'', Connect 7 ''logs'']"

abbreviation busy_history :: "string call list" where
  "busy_history \<equiv>
     [Connect 1 ''alerts'', Connect 2 ''alerts'', Broadcast ''alerts'' ''up'',
      Connect 3 ''logs'', Disconnect 1 ''alerts'', GetConnectionCount ''alerts'',
      Disconnect 1 ''alerts'', Connect 0 ''metrics'']"

abbreviation busy :: "nat system" where
  "busy \<equiv> run example_env busy_history (init 0)"

abbreviation counts_state :: "nat system" where
  "counts_state \<equiv> run example_env counts_history (init 0)"

section \<open>Facts about the methods\<close>

subsection \<open>Removal from a list\<close>

lemma fold_remove1_Nil: "fold remove1 ds [] = []"
  by (induction ds) simp_all

lemma fold_remove1_notin:
  "x \<notin> set ds \<Longrightarrow> fold remove1 ds (x # xs) = x # fold remove1 ds xs"
  by (induction ds arbitrary: xs) auto

lemma mset_fold_remove1: "mset (fold remove1 ds xs) = mset xs - mset ds"
  by (induction ds arbitrary: xs) (simp_all add: diff_diff_add_mset)

lemma set_fold_remove1: "set (fold remove1 ds xs) \<subseteq> set xs"
proof (induction ds arbitrary: xs)
  case Nil
  show ?case by simp
next
  case (Cons d ds)
  have "set (fold remove1 ds (remove1 d xs)) \<subseteq> set (remove1 d xs)" by (rule Cons.IH)
  also have "\<dots> \<subseteq> set xs" by (rule set_remove1_subset)
  finally show ?case by simp
qed

lemma distinct_fold_remove1: "distinct xs \<Longrightarrow> distinct (fold remove1 ds xs)"
  by (induction ds arbitrary: xs) simp_all

lemma failed_sends_Cons:
  "failed_sends ((c, m, b) # new) = (if b then failed_sends new else c # failed_sends new)"
  by (simp add: failed_sends_def)

lemma failed_sends_Nil: "failed_sends [] = []"
  by (simp add: failed_sends_def)

lemma failed_sends_mem:
  "c \<in> set (failed_sends new) \<longleftrightarrow> (\<exists>m. (c, m, False) \<in> set new)"
  by (induction new) (auto simp: failed_sends_Nil failed_sends_Cons split: if_splits)

lemma fold_remove1_failed:
  assumes "\<forall>a\<in>set new. snd (snd a) = ok (fst a)"
  shows "fold remove1 (failed_sends new) (map fst new) = filter ok (map fst new)"
  using assms
proof (induction new)
  case Nil
  show ?case by (simp add: failed_sends_Nil)
next
  case (Cons a new)
  obtain c m b where a: "a = (c, m, b)" by (cases a)
  have b: "b = ok c" using Cons.prems a by simp
  have ih: "fold remove1 (failed_sends new) (map fst new) = filter ok (map fst new)"
    using Cons by simp
  show ?case
  proof (cases b)
    case True
    have "c \<notin> set (failed_sends new)"
    proof
      assume "c \<in> set (failed_sends new)"
      then obtain m' where "(c, m', False) \<in> set new" unfolding failed_sends_mem by blast
      then have "False = ok c" using Cons.prems by force
      then show False using True b by simp
    qed
    then have "fold remove1 (failed_sends new) (c # map fst new) =
               c # fold remove1 (failed_sends new) (map fst new)"
      by (rule fold_remove1_notin)
    then show ?thesis using True a b ih by (simp add: failed_sends_Cons)
  next
    case False
    then show ?thesis using a b ih by (simp add: failed_sends_Cons)
  qed
qed

subsection \<open>What each method does to the state\<close>

lemma list_remove_eq:
  "list_remove x xs = (if x \<in> set xs then Inr (remove1 x xs) else Inl ValueError)"
  by (induction xs) auto

lemma disconnect_eq:
  "disconnect c ch s =
     (Inr (), case active_connections s ch of
                None \<Rightarrow> s
              | Some xs \<Rightarrow>
                  if c \<in> set xs then s\<lparr>active_connections := (active_connections s)(ch \<mapsto> remove1 c xs)\<rparr>
                  else s)"
  by (simp add: disconnect_def list_remove_eq split: option.splits)

lemma members_disconnect:
  "members (snd (disconnect c ch s)) ch' =
     (if ch' = ch then remove1 c (members s ch) else members s ch')"
  by (auto simp add: members_def disconnect_eq remove1_idem split: option.splits)

lemma disconnect_upd:
  "disconnect c ch s =
     (Inr (), s\<lparr>active_connections :=
        (case active_connections s ch of
           None \<Rightarrow> active_connections s
         | Some xs \<Rightarrow> (active_connections s)(ch \<mapsto> remove1 c xs))\<rparr>)"
  by (simp add: disconnect_eq remove1_idem map_upd_triv split: option.splits)

lemma evict_upd:
  "evict ds ch s =
     (Inr (), s\<lparr>active_connections :=
        (case active_connections s ch of
           None \<Rightarrow> active_connections s
         | Some xs \<Rightarrow> (active_connections s)(ch \<mapsto> fold remove1 ds xs))\<rparr>)"
proof (induction ds arbitrary: s)
  case Nil
  show ?case by (simp add: map_upd_triv split: option.splits)
next
  case (Cons d ds)
  show ?case by (simp add: disconnect_upd Cons.IH split: option.splits)
qed

lemma sweep_shape:
  "\<exists>new w'.
     sweep e msg xs (dead, log, w) = (dead @ failed_sends new, log @ new, w') \<and>
     map fst new = xs \<and>
     (\<forall>a\<in>set new. fst (snd a) = msg \<and> (\<exists>wi. snd (snd a) = send_ok e (fst a) msg wi)) \<and>
     w' = foldl (\<lambda>w c. snd (send_text e c msg w)) w xs \<and>
     (\<forall>i<length xs.
        new ! i = (xs ! i, msg,
                   send_ok e (xs ! i) msg (foldl (\<lambda>w c. snd (send_text e c msg w)) w (take i xs))))"
proof (induction xs arbitrary: dead log w)
  case Nil
  show ?case by (simp add: failed_sends_def)
next
  case (Cons c cs)
  let ?f = "\<lambda>w c. snd (send_text e c msg w)"
  obtain r w1 where r: "send_text e c msg w = (r, w1)" by (cases "send_text e c msg w")
  define ok where "ok = send_ok e c msg w"
  define dead1 where "dead1 = (if ok then dead else dead @ [c])"
  have step: "sweep e msg (c # cs) (dead, log, w) =
                sweep e msg cs (dead1, log @ [(c, msg, ok)], w1)"
    using r by (cases r) (simp_all add: ok_def dead1_def send_ok_def)
  obtain new w' where
    sw: "sweep e msg cs (dead1, log @ [(c, msg, ok)], w1) =
           (dead1 @ failed_sends new, (log @ [(c, msg, ok)]) @ new, w')" and
    fs: "map fst new = cs" and
    al: "\<forall>a\<in>set new. fst (snd a) = msg \<and> (\<exists>wi. snd (snd a) = send_ok e (fst a) msg wi)" and
    wd: "w' = foldl ?f w1 cs" and
    ix: "\<forall>i<length cs. new ! i = (cs ! i, msg, send_ok e (cs ! i) msg (foldl ?f w1 (take i cs)))"
    using Cons.IH[of dead1 "log @ [(c, msg, ok)]" w1] by blast
  let ?new = "(c, msg, ok) # new"
  have w1: "w1 = ?f w c" using r by simp
  have "dead1 @ failed_sends new = dead @ failed_sends ?new"
    by (simp add: dead1_def failed_sends_def)
  moreover have "map fst ?new = c # cs" using fs by simp
  moreover have "\<forall>a\<in>set ?new. fst (snd a) = msg \<and> (\<exists>wi. snd (snd a) = send_ok e (fst a) msg wi)"
    using al ok_def by auto
  moreover have "w' = foldl ?f w (c # cs)" using wd w1 by simp
  moreover have "\<forall>i<length (c # cs).
      ?new ! i = ((c # cs) ! i, msg, send_ok e ((c # cs) ! i) msg (foldl ?f w (take i (c # cs))))"
  proof (intro allI impI)
    fix i assume i: "i < length (c # cs)"
    show "?new ! i = ((c # cs) ! i, msg, send_ok e ((c # cs) ! i) msg (foldl ?f w (take i (c # cs))))"
    proof (cases i)
      case 0
      then show ?thesis by (simp add: ok_def)
    next
      case (Suc k)
      then have "k < length cs" using i by simp
      then show ?thesis using ix Suc w1 by simp
    qed
  qed
  ultimately show ?case using step sw by (intro exI[of _ ?new] exI[of _ w']) simp
qed

lemma connect_upd:
  "connect e c ch s =
     (case accept e c (world s) of
        (Inl err, w') \<Rightarrow> (Inl err, s\<lparr>world := w'\<rparr>)
      | (Inr u, w') \<Rightarrow>
          (Inr (), s\<lparr>active_connections := (active_connections s)(ch \<mapsto> members s ch @ [c]),
                     world := w'\<rparr>))"
  by (simp add: connect_def members_def Let_def split: prod.splits sum.splits option.splits)

lemma broadcast_shape:
  assumes "active_connections s ch = Some xs" and "dumps e d (world s) = (Inr msg, w0)"
  shows "\<exists>new w'.
     broadcast e ch d s =
       (Inr (), s\<lparr>active_connections := (active_connections s)(ch \<mapsto> fold remove1 (failed_sends new) xs),
                  world := w', wire := wire s @ new\<rparr>) \<and>
     map fst new = xs \<and>
     (\<forall>a\<in>set new. fst (snd a) = msg \<and> (\<exists>wi. snd (snd a) = send_ok e (fst a) msg wi)) \<and>
     w' = foldl (\<lambda>w c. snd (send_text e c msg w)) w0 xs \<and>
     (\<forall>i<length xs.
        new ! i = (xs ! i, msg,
                   send_ok e (xs ! i) msg (foldl (\<lambda>w c. snd (send_text e c msg w)) w0 (take i xs))))"
proof -
  obtain new w' where
    sw: "sweep e msg xs ([], wire s, w0) = ([] @ failed_sends new, wire s @ new, w')" and
    rest: "map fst new = xs"
      "\<forall>a\<in>set new. fst (snd a) = msg \<and> (\<exists>wi. snd (snd a) = send_ok e (fst a) msg wi)"
      "w' = foldl (\<lambda>w c. snd (send_text e c msg w)) w0 xs"
      "\<forall>i<length xs.
        new ! i = (xs ! i, msg,
                   send_ok e (xs ! i) msg (foldl (\<lambda>w c. snd (send_text e c msg w)) w0 (take i xs)))"
    using sweep_shape[of e msg xs "[]" "wire s" w0] by blast
  have "broadcast e ch d s =
       (Inr (), s\<lparr>active_connections := (active_connections s)(ch \<mapsto> fold remove1 (failed_sends new) xs),
                  world := w', wire := wire s @ new\<rparr>)"
    using assms sw by (simp add: broadcast_def evict_upd)
  then show ?thesis using rest by blast
qed

lemma broadcast_other:
  "active_connections s ch = None \<Longrightarrow> broadcast e ch d s = (Inr (), s)"
  "active_connections s ch = Some xs \<Longrightarrow> dumps e d (world s) = (Inl err, w0) \<Longrightarrow>
     broadcast e ch d s = (Inl err, s\<lparr>world := w0\<rparr>)"
  by (simp_all add: broadcast_def)

lemma broadcast_cases:
  obtains (unknown) "active_connections s ch = None" "broadcast e ch d s = (Inr (), s)"
  | (raised) xs err w0 where "active_connections s ch = Some xs"
      "dumps e d (world s) = (Inl err, w0)"
      "broadcast e ch d s = (Inl err, s\<lparr>world := w0\<rparr>)"
  | (swept) xs msg w0 new w' where "active_connections s ch = Some xs"
      "dumps e d (world s) = (Inr msg, w0)"
      "broadcast e ch d s =
         (Inr (), s\<lparr>active_connections := (active_connections s)(ch \<mapsto> fold remove1 (failed_sends new) xs),
                    world := w', wire := wire s @ new\<rparr>)"
      "map fst new = xs"
      "\<forall>a\<in>set new. fst (snd a) = msg \<and> (\<exists>wi. snd (snd a) = send_ok e (fst a) msg wi)"
proof (cases "active_connections s ch")
  case None
  then show ?thesis using unknown by (simp add: broadcast_other)
next
  case (Some xs)
  obtain r w0 where d: "dumps e d (world s) = (r, w0)" by (cases "dumps e d (world s)")
  show ?thesis
  proof (cases r)
    case (Inl err)
    then show ?thesis using Some d raised by (simp add: broadcast_other)
  next
    case (Inr msg)
    then have d': "dumps e d (world s) = (Inr msg, w0)" using d by simp
    from broadcast_shape[OF Some d'] show ?thesis using swept[OF Some d'] by blast
  qed
qed

lemma active_broadcast_other:
  assumes "ch' \<noteq> ch"
  shows "active_connections (snd (broadcast e ch d s)) ch' = active_connections s ch'"
proof (cases rule: broadcast_cases[of s ch e d])
  case unknown
  then show ?thesis by simp
next
  case (raised xs err w0)
  then show ?thesis by simp
next
  case (swept xs msg w0 new w')
  then show ?thesis using assms by simp
qed

lemma added_same: "added s s = []"
  by (simp add: added_def)

lemma members_connect:
  "members (snd (connect e c ch s)) ch' =
     (if ch' = ch \<and> accept_ok e c (world s) then members s ch @ [c] else members s ch')"
  by (auto simp add: connect_upd accept_ok_def members_def split: prod.splits sum.splits)

lemma active_connect_other:
  "ch' \<noteq> ch \<Longrightarrow> active_connections (snd (connect e c ch s)) ch' = active_connections s ch'"
  by (simp add: connect_upd split: prod.splits sum.splits)

lemma active_disconnect_empty:
  "members s ch' = [] \<Longrightarrow>
     active_connections (snd (disconnect c ch s)) ch' = active_connections s ch'"
  by (auto simp add: disconnect_upd members_def split: option.splits)

lemma members_broadcast:
  "\<exists>ds. members (snd (broadcast e ch d s)) ch' =
          (if ch' = ch then fold remove1 ds (members s ch) else members s ch') \<and>
        ds = failed_sends (added s (snd (broadcast e ch d s)))"
proof (cases rule: broadcast_cases[of s ch e d])
  case unknown
  then show ?thesis by (simp add: added_same failed_sends_Nil)
next
  case (raised xs err w0)
  then show ?thesis by (simp add: added_def failed_sends_Nil members_def)
next
  case (swept xs msg w0 new w')
  then show ?thesis by (simp add: added_def members_def)
qed

lemma active_broadcast_empty:
  assumes "members s ch' = []"
  shows "active_connections (snd (broadcast e ch d s)) ch' = active_connections s ch'"
proof (cases "ch' = ch")
  case False
  then show ?thesis by (rule active_broadcast_other)
next
  case True
  show ?thesis
  proof (cases rule: broadcast_cases[of s ch e d])
    case unknown
    then show ?thesis by simp
  next
    case (raised xs err w0)
    then show ?thesis by simp
  next
    case (swept xs msg w0 new w')
    then have "xs = []" using assms True by (simp add: members_def)
    then show ?thesis using swept True by (simp add: fold_remove1_Nil)
  qed
qed

lemma broadcast_empty_same:
  assumes "members s ch = []"
  shows "active_connections (snd (broadcast e ch d s)) = active_connections s \<and>
         wire (snd (broadcast e ch d s)) = wire s"
proof (cases rule: broadcast_cases[of s ch e d])
  case unknown
  then show ?thesis by simp
next
  case (raised xs err w0)
  then show ?thesis by simp
next
  case (swept xs msg w0 new w')
  then have xs: "xs = []" using assms by (simp add: members_def)
  then have "new = []" using swept(4) by simp
  then show ?thesis using swept(1,3) xs by (simp add: failed_sends_Nil map_upd_triv)
qed

lemma entries_all_true:
  "\<forall>a\<in>set new. a = (fst a, msg, True) \<Longrightarrow> new = map (\<lambda>c. (c, msg, True)) (map fst new)"
proof (induction new)
  case Nil
  show ?case by simp
next
  case (Cons a new)
  then have "a = (fst a, msg, True)" and "new = map (\<lambda>c. (c, msg, True)) (map fst new)"
    by simp_all
  then show ?case by (metis list.simps(9))
qed

subsection \<open>Histories\<close>

lemma run_append: "run e (cs @ ds) s = run e ds (run e cs s)"
  by (induction cs arbitrary: s) simp_all

lemma connected_append: "connected (cs @ ds) = connected cs @ connected ds"
  by (induction cs rule: connected.induct) simp_all

lemma connected_Cons: "connected (c # cs) = connected [c] @ connected cs"
  using connected_append[of "[c]" cs] by simp

lemma connect_names_Cons: "connect_names (c # cs) = connect_names [c] @ connect_names cs"
  by (cases c) simp_all

lemma members_init: "members (init w) ch = []"
  by (simp add: members_def init_def)

lemma unseen_Cons: "unseen ch (c # cs) \<longleftrightarrow> \<not> names ch c \<and> unseen ch cs"
  by (simp add: unseen_def)

lemma unseen_never_connected: "unseen ch cs \<Longrightarrow> ch \<notin> set (connect_names cs)"
  by (induction cs rule: connect_names.induct) (auto simp add: unseen_Cons)

lemma active_step_never_connected:
  assumes "ch \<notin> set (connect_names [c])" and "members s ch = []"
  shows "active_connections (step e c s) ch = active_connections s ch"
proof (cases c)
  case (Connect x ch')
  then show ?thesis using assms(1) by (simp add: active_connect_other)
next
  case (Disconnect x ch')
  then show ?thesis using assms(2) by (simp add: active_disconnect_empty)
next
  case (Broadcast ch' d)
  then show ?thesis using assms(2) by (simp add: active_broadcast_empty)
next
  case (GetConnectionCount ch')
  then show ?thesis by (simp add: get_connection_count_def)
next
  case GetAllConnectionCounts
  then show ?thesis by (simp add: get_all_connection_counts_def)
qed

lemma never_connected_same:
  "ch \<notin> set (connect_names cs) \<Longrightarrow> members s ch = [] \<Longrightarrow>
     active_connections (run e cs s) ch = active_connections s ch"
proof (induction cs arbitrary: s)
  case Nil
  show ?case by simp
next
  case (Cons c cs)
  have nc: "ch \<notin> set (connect_names [c])" "ch \<notin> set (connect_names cs)"
    using Cons.prems(1) connect_names_Cons[of c cs] by auto
  have a: "active_connections (step e c s) ch = active_connections s ch"
    using nc(1) Cons.prems(2) by (rule active_step_never_connected)
  then have "members (step e c s) ch = []" using Cons.prems(2) by (simp add: members_def)
  from Cons.IH[OF nc(2) this] a show ?case by simp
qed

lemma key_step: "active_connections s ch \<noteq> None \<Longrightarrow> active_connections (step e c s) ch \<noteq> None"
proof (cases c)
  case (Connect x ch')
  assume "active_connections s ch \<noteq> None"
  then show ?thesis using Connect by (simp add: connect_upd split: prod.splits sum.splits)
next
  case (Disconnect x ch')
  assume "active_connections s ch \<noteq> None"
  then show ?thesis using Disconnect by (simp add: disconnect_upd split: option.splits)
next
  case (Broadcast ch' d)
  assume k: "active_connections s ch \<noteq> None"
  show ?thesis
  proof (cases rule: broadcast_cases[of s ch' e d])
    case unknown
    then show ?thesis using k Broadcast by simp
  next
    case (raised xs err w0)
    then show ?thesis using k Broadcast by simp
  next
    case (swept xs msg w0 new w')
    then show ?thesis using k Broadcast by simp
  qed
next
  case (GetConnectionCount ch')
  assume "active_connections s ch \<noteq> None"
  then show ?thesis using GetConnectionCount by (simp add: get_connection_count_def)
next
  case GetAllConnectionCounts
  assume "active_connections s ch \<noteq> None"
  then show ?thesis using GetAllConnectionCounts by (simp add: get_all_connection_counts_def)
qed

lemma key_run: "active_connections s ch \<noteq> None \<Longrightarrow> active_connections (run e cs s) ch \<noteq> None"
proof (induction cs arbitrary: s)
  case Nil
  then show ?case by simp
next
  case (Cons c cs)
  have "active_connections (step e c s) ch \<noteq> None" using Cons.prems by (rule key_step)
  then have "active_connections (run e cs (step e c s)) ch \<noteq> None" by (rule Cons.IH)
  then show ?case by simp
qed

lemma members_step_subset:
  "set (members (step e c s) ch) \<subseteq> set (members s ch) \<union> set (connected [c])"
proof (cases c)
  case (Connect x ch')
  then show ?thesis by (auto simp add: members_connect)
next
  case (Disconnect x ch')
  then show ?thesis using set_remove1_subset[of x "members s ch"]
    by (auto simp add: members_disconnect)
next
  case (Broadcast ch' d)
  from members_broadcast[of e ch' d s ch] obtain ds where
    "members (snd (broadcast e ch' d s)) ch =
       (if ch = ch' then fold remove1 ds (members s ch') else members s ch)"
    by blast
  then show ?thesis using Broadcast set_fold_remove1[of ds "members s ch"] by auto
next
  case (GetConnectionCount ch')
  then show ?thesis by (simp add: get_connection_count_def)
next
  case GetAllConnectionCounts
  then show ?thesis by (simp add: get_all_connection_counts_def)
qed

lemma members_run_subset:
  "set (members (run e cs s) ch) \<subseteq> set (members s ch) \<union> set (connected cs)"
proof (induction cs arbitrary: s)
  case Nil
  show ?case by simp
next
  case (Cons c cs)
  have "set (members (run e cs (step e c s)) ch) \<subseteq>
          set (members (step e c s) ch) \<union> set (connected cs)"
    by (rule Cons.IH)
  also have "\<dots> \<subseteq> (set (members s ch) \<union> set (connected [c])) \<union> set (connected cs)"
    using members_step_subset[of e c s ch] by blast
  finally show ?case using connected_Cons[of c cs] by auto
qed

lemma distinct_step:
  assumes "distinct (members s ch)" and "set (connected [c]) \<inter> set (members s ch) = {}"
  shows "distinct (members (step e c s) ch)"
proof (cases c)
  case (Connect x ch')
  then show ?thesis using assms by (auto simp add: members_connect)
next
  case (Disconnect x ch')
  then show ?thesis using assms(1) by (auto simp add: members_disconnect)
next
  case (Broadcast ch' d)
  from members_broadcast[of e ch' d s ch] obtain ds where
    "members (snd (broadcast e ch' d s)) ch =
       (if ch = ch' then fold remove1 ds (members s ch') else members s ch)"
    by blast
  then show ?thesis using Broadcast assms(1) by (auto simp add: distinct_fold_remove1)
next
  case (GetConnectionCount ch')
  then show ?thesis using assms(1) by (simp add: get_connection_count_def)
next
  case GetAllConnectionCounts
  then show ?thesis using assms(1) by (simp add: get_all_connection_counts_def)
qed

lemma distinct_run:
  "distinct (connected cs) \<Longrightarrow> distinct (members s ch) \<Longrightarrow>
   set (connected cs) \<inter> set (members s ch) = {} \<Longrightarrow>
   distinct (members (run e cs s) ch)"
proof (induction cs arbitrary: s)
  case Nil
  then show ?case by simp
next
  case (Cons c cs)
  have split: "connected (c # cs) = connected [c] @ connected cs" by (rule connected_Cons)
  have d1: "distinct (connected cs)" and dj: "set (connected [c]) \<inter> set (connected cs) = {}"
    using Cons.prems(1) unfolding split by auto
  have here: "set (connected [c]) \<inter> set (members s ch) = {}"
    using Cons.prems(3) unfolding split by auto
  have d2: "distinct (members (step e c s) ch)"
    using Cons.prems(2) here by (rule distinct_step)
  have "set (connected cs) \<inter> set (members s ch) = {}"
    using Cons.prems(3) unfolding split by auto
  then have d3: "set (connected cs) \<inter> set (members (step e c s) ch) = {}"
    using members_step_subset[of e c s ch] dj by blast
  from Cons.IH[OF d1 d2 d3] show ?case by simp
qed

subsection \<open>The list of a channel and the specification's collection\<close>

lemma spec_step_refines:
  assumes "\<forall>ch. mset (members s ch) = A ch"
  shows "mset (members (step e c s) ch) = spec_step e c s A ch"
proof (cases c)
  case (Connect x ch')
  then show ?thesis using assms by (simp add: members_connect)
next
  case (Disconnect x ch')
  then show ?thesis using assms by (simp add: members_disconnect)
next
  case (Broadcast ch' d)
  from members_broadcast[of e ch' d s ch]
  have "members (snd (broadcast e ch' d s)) ch =
          (if ch = ch' then fold remove1 (failed_sends (added s (snd (broadcast e ch' d s)))) (members s ch')
           else members s ch)"
    by blast
  then show ?thesis using Broadcast assms by (simp add: mset_fold_remove1)
next
  case (GetConnectionCount ch')
  then show ?thesis using assms by (simp add: get_connection_count_def)
next
  case GetAllConnectionCounts
  then show ?thesis using assms by (simp add: get_all_connection_counts_def)
qed

lemma spec_registered_refines:
  "\<forall>ch. mset (members s ch) = A ch \<Longrightarrow>
     mset (members (run e cs s) ch) = spec_registered e cs s A ch"
proof (induction cs arbitrary: s A)
  case Nil
  then show ?case by simp
next
  case (Cons c cs)
  have "\<forall>ch. mset (members (step e c s) ch) = spec_step e c s A ch"
    using spec_step_refines[OF Cons.prems] by blast
  from Cons.IH[OF this] show ?case by simp
qed

subsection \<open>The states of the examples\<close>

lemma two_alerts_eq:
  "two_alerts =
     \<lparr>active_connections =
        [''alerts'' \<mapsto> [1, 3], ''metrics'' \<mapsto> [], ''network_traffic'' \<mapsto> [], ''logs'' \<mapsto> []],
      world = 2, wire = []\<rparr>"
  by (rule system.equality) (simp_all add: connect_def example_env_def init_def Let_def fun_eq_iff)

lemma alerts_and_metrics_eq:
  "alerts_and_metrics =
     \<lparr>active_connections =
        [''alerts'' \<mapsto> [1, 2], ''metrics'' \<mapsto> [3], ''network_traffic'' \<mapsto> [], ''logs'' \<mapsto> []],
      world = 3, wire = []\<rparr>"
  by (rule system.equality) (simp_all add: connect_def example_env_def init_def Let_def fun_eq_iff)

lemma three_alerts_eq:
  "three_alerts =
     \<lparr>active_connections =
        [''alerts'' \<mapsto> [1, 3, 5], ''metrics'' \<mapsto> [], ''network_traffic'' \<mapsto> [], ''logs'' \<mapsto> []],
      world = 3, wire = []\<rparr>"
  by (rule system.equality) (simp_all add: connect_def example_env_def init_def Let_def fun_eq_iff)

lemma mixed_alerts_eq:
  "mixed_alerts =
     \<lparr>active_connections =
        [''alerts'' \<mapsto> [1, 2, 3], ''metrics'' \<mapsto> [], ''network_traffic'' \<mapsto> [], ''logs'' \<mapsto> []],
      world = 3, wire = []\<rparr>"
  by (rule system.equality) (simp_all add: connect_def example_env_def init_def Let_def fun_eq_iff)

lemma busy_eq:
  "busy =
     \<lparr>active_connections =
        [''alerts'' \<mapsto> [], ''metrics'' \<mapsto> [], ''network_traffic'' \<mapsto> [], ''logs'' \<mapsto> [3]],
      world = 7,
      wire = [(1, [CHR 0x22] @ ''up'' @ [CHR 0x22], True), (2, [CHR 0x22] @ ''up'' @ [CHR 0x22], False)]\<rparr>"
  by (rule system.equality)
     (simp_all add: connect_def disconnect_def broadcast_def get_connection_count_def
        example_env_def init_def Let_def fun_eq_iff)

lemma counts_state_eq:
  "counts_state =
     \<lparr>active_connections =
        [''alerts'' \<mapsto> [1, 3], ''metrics'' \<mapsto> [], ''network_traffic'' \<mapsto> [], ''logs'' \<mapsto> [7]],
      world = 4, wire = []\<rparr>"
  by (rule system.equality)
     (simp_all add: connect_def disconnect_def example_env_def init_def Let_def fun_eq_iff)

section \<open>The claims\<close>

text \<open>
  C1. A channel's list holds exactly the connections \<open>A\<close>, \<open>B\<close> and \<open>C\<close>; the payload
  serialises; in whatever state the transport is, a send to \<open>B\<close> raises and sends to \<open>A\<close>
  and to \<open>C\<close> return. Then \<^verbatim>\<open>broadcast\<close> returns normally; the transport has been
  called with \<^verbatim>\<open>send_text\<close> once for every entry of the list, in its order, starting from
  the state the serialisation left (so the sends to \<open>A\<close> and \<open>C\<close> were made, before and
  after the failure of \<open>B\<close>); the wire shows exactly these sends, completed for \<open>A\<close> and
  \<open>C\<close> and failed for \<open>B\<close>; and afterwards \<open>B\<close> is not in the channel's list while
  \<open>A\<close> and \<open>C\<close> are: the list is the old one without its entries \<open>B\<close>.
\<close>

theorem broadcast_isolates_failure:
  assumes "active_connections s ch = Some xs" and "set xs = {A, B, C}"
    and "dumps e d (world s) = (Inr msg, w0)"
    and "\<forall>w. send_ok e A msg w" and "\<forall>w. \<not> send_ok e B msg w" and "\<forall>w. send_ok e C msg w"
  shows "fst (broadcast e ch d s) = Inr () \<and>
         world (snd (broadcast e ch d s)) = foldl (\<lambda>w c. snd (send_text e c msg w)) w0 xs \<and>
         added s (snd (broadcast e ch d s)) = map (\<lambda>c. (c, msg, c \<noteq> B)) xs \<and>
         (A, msg, True) \<in> set (added s (snd (broadcast e ch d s))) \<and>
         (C, msg, True) \<in> set (added s (snd (broadcast e ch d s))) \<and>
         (B, msg, False) \<in> set (added s (snd (broadcast e ch d s))) \<and>
         B \<notin> set (members (snd (broadcast e ch d s)) ch) \<and>
         A \<in> set (members (snd (broadcast e ch d s)) ch) \<and>
         C \<in> set (members (snd (broadcast e ch d s)) ch) \<and>
         members (snd (broadcast e ch d s)) ch = filter (\<lambda>c. c \<noteq> B) xs"
proof -
  let ?f = "\<lambda>w c. snd (send_text e c msg w)"
  obtain new w' where
    b: "broadcast e ch d s =
         (Inr (), s\<lparr>active_connections := (active_connections s)(ch \<mapsto> fold remove1 (failed_sends new) xs),
                    world := w', wire := wire s @ new\<rparr>)" and
    fs: "map fst new = xs" and
    wd: "w' = foldl ?f w0 xs" and
    ix: "\<forall>i<length xs. new ! i = (xs ! i, msg, send_ok e (xs ! i) msg (foldl ?f w0 (take i xs)))"
    using broadcast_shape[OF assms(1,3)] by blast
  have ne: "A \<noteq> B" "C \<noteq> B" using assms(4,5,6) by auto
  have ad: "added s (snd (broadcast e ch d s)) = new" using b by (simp add: added_def)
  have flag: "send_ok e x msg w = (x \<noteq> B)" if "x \<in> set xs" for x w
    using that assms(2,4,5,6) ne by auto
  have len: "length new = length xs" using fs by (metis length_map)
  have nm: "new = map (\<lambda>c. (c, msg, c \<noteq> B)) xs"
  proof (rule nth_equalityI)
    show "length new = length (map (\<lambda>c. (c, msg, c \<noteq> B)) xs)" using len by simp
  next
    fix i assume "i < length new"
    then have i: "i < length xs" using len by simp
    then have "xs ! i \<in> set xs" by simp
    then have "send_ok e (xs ! i) msg (foldl ?f w0 (take i xs)) = (xs ! i \<noteq> B)" by (rule flag)
    then show "new ! i = map (\<lambda>c. (c, msg, c \<noteq> B)) xs ! i" using ix i by simp
  qed
  have ok: "\<forall>a\<in>set new. snd (snd a) = (fst a \<noteq> B)" unfolding nm by simp
  have m: "members (snd (broadcast e ch d s)) ch = filter (\<lambda>c. c \<noteq> B) xs"
    using b fold_remove1_failed[OF ok] fs by (simp add: members_def)
  have "A \<in> set xs" "B \<in> set xs" "C \<in> set xs" using assms(2) by simp_all
  then have "(A, msg, True) \<in> set new" "(B, msg, False) \<in> set new" "(C, msg, True) \<in> set new"
    unfolding nm using ne by auto
  moreover have "world (snd (broadcast e ch d s)) = foldl ?f w0 xs" using b wd by simp
  moreover have "fst (broadcast e ch d s) = Inr ()" using b by simp
  moreover have "B \<notin> set (members (snd (broadcast e ch d s)) ch)" unfolding m by simp
  moreover have "A \<in> set (members (snd (broadcast e ch d s)) ch)"
    "C \<in> set (members (snd (broadcast e ch d s)) ch)"
    unfolding m using assms(2) ne by simp_all
  ultimately show ?thesis unfolding ad using nm m by blast
qed

theorem broadcast_isolates_failure_witness:
  "active_connections mixed_alerts ''alerts'' = Some [1, 2, 3] \<and>
   set [1, 2, 3] = {1, 2, 3::nat} \<and>
   world mixed_alerts = 3 \<and>
   dumps example_env ''up'' 3 = (Inr ([CHR 0x22] @ ''up'' @ [CHR 0x22]), 4) \<and>
   fst (broadcast example_env ''alerts'' ''up'' mixed_alerts) = Inr () \<and>
   world (snd (broadcast example_env ''alerts'' ''up'' mixed_alerts)) = 7 \<and>
   added mixed_alerts (snd (broadcast example_env ''alerts'' ''up'' mixed_alerts)) =
     [(1, [CHR 0x22] @ ''up'' @ [CHR 0x22], True),
      (2, [CHR 0x22] @ ''up'' @ [CHR 0x22], False),
      (3, [CHR 0x22] @ ''up'' @ [CHR 0x22], True)] \<and>
   members (snd (broadcast example_env ''alerts'' ''up'' mixed_alerts)) ''alerts'' = [1, 3]"
proof -
  have a: "active_connections mixed_alerts ''alerts'' = Some [1, 2, 3]"
    and w: "world mixed_alerts = 3"
    unfolding mixed_alerts_eq by simp_all
  have st: "set [1, 2, 3] = {1, 2, 3::nat}" by simp
  have du3: "dumps example_env ''up'' 3 = (Inr ([CHR 0x22] @ ''up'' @ [CHR 0x22]), 4)"
    by (simp add: example_env_def)
  have du: "dumps example_env ''up'' (world mixed_alerts) = (Inr ([CHR 0x22] @ ''up'' @ [CHR 0x22]), 4)"
    unfolding w by (rule du3)
  have s1: "\<forall>w. send_ok example_env 1 ([CHR 0x22] @ ''up'' @ [CHR 0x22]) w"
    and s2: "\<forall>w. \<not> send_ok example_env 2 ([CHR 0x22] @ ''up'' @ [CHR 0x22]) w"
    and s3: "\<forall>w. send_ok example_env 3 ([CHR 0x22] @ ''up'' @ [CHR 0x22]) w"
    by (simp_all add: send_ok_def example_env_def)
  have fl: "foldl (\<lambda>w c. snd (send_text example_env c ([CHR 0x22] @ ''up'' @ [CHR 0x22]) w)) 4 [1, 2, 3] = 7"
    by (simp add: example_env_def)
  from broadcast_isolates_failure[OF a st du s1 s2 s3] a st w du3 fl
  show ?thesis by (simp del: run.simps)
qed

text \<open>
  C2, as the code has it. After any history from \<^verbatim>\<open>__init__\<close> whose calls of
  \<^verbatim>\<open>connect\<close> name only "alerts", "metrics" and "logs", in a state with 2 connections on
  "alerts", none on "metrics" and 1 on "logs", \<^verbatim>\<open>get_all_connection_counts\<close> returns
  the mapping with four entries: those three with 2, 0 and 1, and "network_traffic", which
  \<^verbatim>\<open>__init__\<close> registers, with 0. It changes nothing.
\<close>

theorem all_counts_with_defaults:
  assumes "s = run e cs (init w)"
    and "set (connect_names cs) \<subseteq> {''alerts'', ''metrics'', ''logs''}"
    and "length (members s ''alerts'') = 2"
    and "length (members s ''metrics'') = 0"
    and "length (members s ''logs'') = 1"
  shows "get_all_connection_counts s =
           (Inr [''alerts'' \<mapsto> 2, ''metrics'' \<mapsto> 0, ''network_traffic'' \<mapsto> 0, ''logs'' \<mapsto> 1], s)"
proof -
  have key: "active_connections s ch \<noteq> None"
    if "ch \<in> {''alerts'', ''metrics'', ''network_traffic'', ''logs''}" for ch
  proof -
    have "active_connections (init w) ch \<noteq> None" using that by (auto simp add: init_def)
    then show ?thesis unfolding assms(1) by (rule key_run)
  qed
  have other: "active_connections s ch = active_connections (init w) ch"
    if "ch \<notin> {''alerts'', ''metrics'', ''logs''}" for ch
  proof -
    have "ch \<notin> set (connect_names cs)" using that assms(2) by blast
    then show ?thesis unfolding assms(1) using members_init by (rule never_connected_same)
  qed
  have cnt: "(case active_connections s ch of None \<Rightarrow> None | Some xs \<Rightarrow> Some (int (length xs))) =
             Some (int (length (members s ch)))"
    if "ch \<in> {''alerts'', ''metrics'', ''network_traffic'', ''logs''}" for ch
    using key[OF that] by (auto simp add: members_def)
  have nt: "members s ''network_traffic'' = []"
    using other[of "''network_traffic''"] by (simp add: members_def init_def)
  have "(\<lambda>ch. case active_connections s ch of None \<Rightarrow> None | Some xs \<Rightarrow> Some (int (length xs))) =
        [''alerts'' \<mapsto> 2, ''metrics'' \<mapsto> 0, ''network_traffic'' \<mapsto> 0, ''logs'' \<mapsto> 1]"
  proof (rule ext)
    fix ch
    consider "ch = ''alerts''" | "ch = ''metrics''" | "ch = ''network_traffic''" | "ch = ''logs''"
      | "ch \<notin> {''alerts'', ''metrics'', ''network_traffic'', ''logs''}" by blast
    then show "(case active_connections s ch of None \<Rightarrow> None | Some xs \<Rightarrow> Some (int (length xs))) =
        [''alerts'' \<mapsto> 2, ''metrics'' \<mapsto> 0, ''network_traffic'' \<mapsto> 0, ''logs'' \<mapsto> 1] ch"
    proof cases
      case 1
      then show ?thesis using cnt[of ch] assms(3) by simp
    next
      case 2
      then show ?thesis using cnt[of ch] assms(4) by simp
    next
      case 3
      then show ?thesis using cnt[of ch] nt by simp
    next
      case 4
      then show ?thesis using cnt[of ch] assms(5) by simp
    next
      case 5
      then have "active_connections s ch = None" using other[of ch] by (simp add: init_def)
      then show ?thesis using 5 by simp
    qed
  qed
  then show ?thesis by (simp add: get_all_connection_counts_def)
qed

theorem all_counts_with_defaults_witness:
  "set (connect_names counts_history) \<subseteq> {''alerts'', ''metrics'', ''logs''} \<and>
   length (members counts_state ''alerts'') = 2 \<and>
   length (members counts_state ''metrics'') = 0 \<and>
   length (members counts_state ''logs'') = 1 \<and>
   get_all_connection_counts counts_state =
     (Inr [''alerts'' \<mapsto> 2, ''metrics'' \<mapsto> 0, ''network_traffic'' \<mapsto> 0, ''logs'' \<mapsto> 1],
      counts_state)"
proof -
  have n: "set (connect_names counts_history) \<subseteq> {''alerts'', ''metrics'', ''logs''}" by simp
  have m: "length (members counts_state ''alerts'') = 2"
    "length (members counts_state ''metrics'') = 0"
    "length (members counts_state ''logs'') = 1"
    unfolding counts_state_eq by (simp_all add: members_def)
  from all_counts_with_defaults[where e = example_env and w = "0::nat", OF refl n m] n m
  show ?thesis by blast
qed

text \<open>
  The mapping with only the three entries is not what the call returns: in the state after
  two connects to "alerts", a connect to and a disconnect from "metrics" and a connect to
  "logs", the result also maps "network_traffic" to 0.
\<close>

theorem all_counts_only_three_counterexample:
  "set (connect_names counts_history) = {''alerts'', ''metrics'', ''logs''} \<and>
   length (members counts_state ''alerts'') = 2 \<and>
   length (members counts_state ''metrics'') = 0 \<and>
   length (members counts_state ''logs'') = 1 \<and>
   fst (get_all_connection_counts counts_state) \<noteq>
     Inr [''alerts'' \<mapsto> 2, ''metrics'' \<mapsto> 0, ''logs'' \<mapsto> 1] \<and>
   (\<exists>m. fst (get_all_connection_counts counts_state) = Inr m \<and> m ''network_traffic'' = Some 0)"
proof -
  have n: "set (connect_names counts_history) = {''alerts'', ''metrics'', ''logs''}" by auto
  have m: "length (members counts_state ''alerts'') = 2"
    "length (members counts_state ''metrics'') = 0"
    "length (members counts_state ''logs'') = 1"
    unfolding counts_state_eq by (simp_all add: members_def)
  obtain f where f: "fst (get_all_connection_counts counts_state) = Inr f"
    and nt: "f ''network_traffic'' = Some 0"
    unfolding counts_state_eq by (simp add: get_all_connection_counts_def)
  have "f \<noteq> [''alerts'' \<mapsto> 2, ''metrics'' \<mapsto> 0, ''logs'' \<mapsto> 1]"
  proof
    assume "f = [''alerts'' \<mapsto> 2, ''metrics'' \<mapsto> 0, ''logs'' \<mapsto> 1]"
    then have "f ''network_traffic'' = None" by simp
    then show False using nt by simp
  qed
  then show ?thesis using n m f nt by simp
qed

text \<open>
  C3, as the code has it. After any history from \<^verbatim>\<open>__init__\<close> with no \<^verbatim>\<open>connect\<close> and
  no \<^verbatim>\<open>broadcast\<close> on a channel name, a \<^verbatim>\<open>broadcast\<close> on that name leaves the
  dictionary and the wire as they were: no entry is created, nothing is sent, and the name
  has no connections after it. When the name is not a key the call returns at once,
  without error, and nothing at all has changed. When the name is a key (one of the four of
  \<^verbatim>\<open>__init__\<close>) the payload is serialised first: the call returns without error when
  \<^verbatim>\<open>json.dumps\<close> returns, and raises the exception of \<^verbatim>\<open>json.dumps\<close> when that raises.
  In every case a \<^verbatim>\<open>connect\<close> to the name whose handshake completes then returns normally
  and leaves the name's entry with exactly that one connection.
\<close>

theorem broadcast_before_connect:
  assumes "unseen ch cs" and "s = run e cs (init w)"
  shows "active_connections (snd (broadcast e ch d s)) = active_connections s \<and>
         wire (snd (broadcast e ch d s)) = wire s \<and>
         members (snd (broadcast e ch d s)) ch = [] \<and>
         (active_connections s ch = None \<longrightarrow> broadcast e ch d s = (Inr (), s)) \<and>
         (\<forall>msg w0. active_connections s ch \<noteq> None \<and> dumps e d (world s) = (Inr msg, w0) \<longrightarrow>
            broadcast e ch d s = (Inr (), s\<lparr>world := w0\<rparr>)) \<and>
         (\<forall>err w0. active_connections s ch \<noteq> None \<and> dumps e d (world s) = (Inl err, w0) \<longrightarrow>
            broadcast e ch d s = (Inl err, s\<lparr>world := w0\<rparr>)) \<and>
         (\<forall>c w'. accept e c (world (snd (broadcast e ch d s))) = (Inr (), w') \<longrightarrow>
            fst (connect e c ch (snd (broadcast e ch d s))) = Inr () \<and>
            active_connections (snd (connect e c ch (snd (broadcast e ch d s)))) ch = Some [c])"
proof -
  let ?s' = "snd (broadcast e ch d s)"
  have a: "active_connections s ch = active_connections (init w) ch"
    unfolding assms(2)
    using unseen_never_connected[OF assms(1)] members_init by (rule never_connected_same)
  then have m: "members s ch = []" by (simp add: members_def init_def)
  have same: "active_connections ?s' = active_connections s \<and> wire ?s' = wire s"
    using m by (rule broadcast_empty_same)
  then have m': "members ?s' ch = []" using m by (simp add: members_def)
  have none: "broadcast e ch d s = (Inr (), s)" if "active_connections s ch = None"
    using that by (rule broadcast_other(1))
  have good: "broadcast e ch d s = (Inr (), s\<lparr>world := w0\<rparr>)"
    if "active_connections s ch \<noteq> None \<and> dumps e d (world s) = (Inr msg, w0)" for msg w0
  proof -
    from that m have k: "active_connections s ch = Some []" by (auto simp add: members_def)
    have "sweep e msg [] ([], wire s, w0) = ([], wire s, w0)" by simp
    then show ?thesis using k that by (simp add: broadcast_def map_upd_triv)
  qed
  have bad: "broadcast e ch d s = (Inl err, s\<lparr>world := w0\<rparr>)"
    if "active_connections s ch \<noteq> None \<and> dumps e d (world s) = (Inl err, w0)" for err w0
    using that by (auto simp add: broadcast_other(2))
  have con: "fst (connect e c ch ?s') = Inr () \<and> active_connections (snd (connect e c ch ?s')) ch = Some [c]"
    if "accept e c (world ?s') = (Inr (), w')" for c w'
    using that m' by (simp add: connect_upd)
  show ?thesis using same m' none good bad con by blast
qed

theorem broadcast_before_connect_witness:
  "unseen ''newtopic'' busy_history \<and>
   active_connections busy ''newtopic'' = None \<and>
   broadcast example_env ''newtopic'' ''up'' busy = (Inr (), busy) \<and>
   accept example_env 9 (world (snd (broadcast example_env ''newtopic'' ''up'' busy))) = (Inr (), 8) \<and>
   fst (connect example_env 9 ''newtopic'' (snd (broadcast example_env ''newtopic'' ''up'' busy))) =
     Inr () \<and>
   active_connections
     (snd (connect example_env 9 ''newtopic'' (snd (broadcast example_env ''newtopic'' ''up'' busy))))
     ''newtopic'' = Some [9] \<and>
   unseen ''network_traffic'' busy_history \<and>
   active_connections busy ''network_traffic'' \<noteq> None \<and>
   dumps example_env ''up'' (world busy) = (Inr ([CHR 0x22] @ ''up'' @ [CHR 0x22]), 8) \<and>
   broadcast example_env ''network_traffic'' ''up'' busy = (Inr (), busy\<lparr>world := 8\<rparr>) \<and>
   members (snd (broadcast example_env ''network_traffic'' ''up'' busy)) ''network_traffic'' = []"
proof -
  have u: "unseen ''newtopic'' busy_history" "unseen ''network_traffic'' busy_history"
    by (simp_all add: unseen_def)
  have n: "active_connections busy ''newtopic'' = None"
    and k: "active_connections busy ''network_traffic'' \<noteq> None"
    and wb: "world busy = 7"
    unfolding busy_eq by simp_all
  have du: "dumps example_env ''up'' (world busy) = (Inr ([CHR 0x22] @ ''up'' @ [CHR 0x22]), 8)"
    unfolding wb by (simp add: example_env_def)
  note t = broadcast_before_connect[where e = example_env and w = "0::nat" and d = "''up''", OF u(1) refl]
  note t2 = broadcast_before_connect[where e = example_env and w = "0::nat" and d = "''up''", OF u(2) refl]
  from t n have same: "broadcast example_env ''newtopic'' ''up'' busy = (Inr (), busy)" by blast
  have ac: "accept example_env 9 (world (snd (broadcast example_env ''newtopic'' ''up'' busy))) = (Inr (), 8)"
    unfolding same using wb by (simp add: example_env_def del: run.simps)
  from t ac have con:
    "fst (connect example_env 9 ''newtopic'' (snd (broadcast example_env ''newtopic'' ''up'' busy))) =
       Inr () \<and>
     active_connections
       (snd (connect example_env 9 ''newtopic'' (snd (broadcast example_env ''newtopic'' ''up'' busy))))
       ''newtopic'' = Some [9]"
    by blast
  from t2 k du have pre: "broadcast example_env ''network_traffic'' ''up'' busy = (Inr (), busy\<lparr>world := 8\<rparr>)"
    by blast
  from t2 have emp: "members (snd (broadcast example_env ''network_traffic'' ''up'' busy)) ''network_traffic'' = []"
    by blast
  show ?thesis using u n same ac con k du pre emp by blast
qed

text \<open>
  The claim as written, a no-op on every such name, fails for a name that \<^verbatim>\<open>__init__\<close>
  registers: "network_traffic" has seen no \<^verbatim>\<open>connect\<close> and no \<^verbatim>\<open>broadcast\<close>, and a
  \<^verbatim>\<open>broadcast\<close> on it with a payload that \<^verbatim>\<open>json.dumps\<close> rejects raises \<^verbatim>\<open>TypeError\<close>.
\<close>

theorem broadcast_default_name_raises_counterexample:
  "unseen ''network_traffic'' [Connect 1 ''alerts'' :: string call] \<and>
   fst (broadcast strict_env ''network_traffic'' ''up''
          (run strict_env [Connect 1 ''alerts''] (init 0))) = Inl TypeError \<and>
   fst (broadcast strict_env ''network_traffic'' ''up''
          (run strict_env [Connect 1 ''alerts''] (init 0))) \<noteq> Inr ()"
  by (simp add: unseen_def broadcast_def connect_def strict_env_def example_env_def init_def Let_def)

text \<open>
  C4. \<^verbatim>\<open>disconnect\<close> never raises, for any connection, channel name and state. When the
  connection is not in the channel's list (which includes a channel name that is not a
  key), the call changes nothing at all. A second call right after a first one is such a
  call, and changes nothing, when the channel's list has no repeated entry (the
  invariant of C9).
\<close>

theorem disconnect_total_idempotent:
  "fst (disconnect c ch s) = Inr () \<and>
   (c \<notin> set (members s ch) \<longrightarrow> snd (disconnect c ch s) = s) \<and>
   (distinct (members s ch) \<longrightarrow>
      disconnect c ch (snd (disconnect c ch s)) = (Inr (), snd (disconnect c ch s)))"
proof (intro conjI impI)
  show "fst (disconnect c ch s) = Inr ()" by (simp add: disconnect_upd)
  show "snd (disconnect c ch s) = s" if "c \<notin> set (members s ch)"
    using that by (simp add: disconnect_eq members_def split: option.splits)
  show "disconnect c ch (snd (disconnect c ch s)) = (Inr (), snd (disconnect c ch s))"
    if "distinct (members s ch)"
    using that by (auto simp add: disconnect_eq members_def split: option.splits)
qed

theorem disconnect_total_idempotent_witness:
  "fst (disconnect 1 ''alerts'' two_alerts) = Inr () \<and>
   5 \<notin> set (members two_alerts ''alerts'') \<and>
   snd (disconnect 5 ''alerts'' two_alerts) = two_alerts \<and>
   snd (disconnect 5 ''newtopic'' two_alerts) = two_alerts \<and>
   distinct (members two_alerts ''alerts'') \<and>
   members (snd (disconnect 1 ''alerts'' two_alerts)) ''alerts'' = [3] \<and>
   disconnect 1 ''alerts'' (snd (disconnect 1 ''alerts'' two_alerts)) =
     (Inr (), snd (disconnect 1 ''alerts'' two_alerts))"
proof -
  have m: "members two_alerts ''alerts'' = [1, 3]" "members two_alerts ''newtopic'' = []"
    unfolding two_alerts_eq by (simp_all add: members_def)
  have m1: "members (snd (disconnect 1 ''alerts'' two_alerts)) ''alerts'' = [3]"
    unfolding members_disconnect m by simp
  from m m1
    disconnect_total_idempotent[of 1 "''alerts''" two_alerts]
    disconnect_total_idempotent[of 5 "''alerts''" two_alerts]
    disconnect_total_idempotent[of 5 "''newtopic''" two_alerts]
  show ?thesis by (simp del: run.simps)
qed

text \<open>
  C5, as the code has it. A \<^verbatim>\<open>broadcast\<close> on a name that is not a key returns at once: the
  payload is not serialised and nothing is sent. On a name that is a key the payload is
  serialised exactly once, before any send; when \<^verbatim>\<open>json.dumps\<close> raises, the call raises
  and nothing is sent; when it returns the text \<open>msg\<close>, the outside world sees, after
  that one serialisation, one \<^verbatim>\<open>send_text\<close> per entry of the channel's list, in its order,
  each carrying \<open>msg\<close>, and the wire records exactly these sends with what each did. When
  every send returns, every connection has received \<open>msg\<close>, the dictionary is unchanged and
  the count of the channel is the length of its list (3 for three connections).
\<close>

theorem broadcast_one_text:
  "(active_connections s ch = None \<longrightarrow> broadcast e ch d s = (Inr (), s)) \<and>
   (\<forall>xs err w0. active_connections s ch = Some xs \<and> dumps e d (world s) = (Inl err, w0) \<longrightarrow>
      broadcast e ch d s = (Inl err, s\<lparr>world := w0\<rparr>)) \<and>
   (\<forall>xs msg w0. active_connections s ch = Some xs \<and> dumps e d (world s) = (Inr msg, w0) \<longrightarrow>
      fst (broadcast e ch d s) = Inr () \<and>
      world (snd (broadcast e ch d s)) = foldl (\<lambda>w c. snd (send_text e c msg w)) w0 xs \<and>
      length (added s (snd (broadcast e ch d s))) = length xs \<and>
      (\<forall>i<length xs.
         added s (snd (broadcast e ch d s)) ! i =
           (xs ! i, msg,
            send_ok e (xs ! i) msg (foldl (\<lambda>w c. snd (send_text e c msg w)) w0 (take i xs)))) \<and>
      ((\<forall>c\<in>set xs. \<forall>w. send_ok e c msg w) \<longrightarrow>
         added s (snd (broadcast e ch d s)) = map (\<lambda>c. (c, msg, True)) xs \<and>
         active_connections (snd (broadcast e ch d s)) = active_connections s \<and>
         fst (get_connection_count ch (snd (broadcast e ch d s))) = Inr (int (length xs))))"
proof (intro conjI allI impI)
  show "broadcast e ch d s = (Inr (), s)" if "active_connections s ch = None"
    using that by (rule broadcast_other(1))
next
  fix xs err w0
  assume "active_connections s ch = Some xs \<and> dumps e d (world s) = (Inl err, w0)"
  then show "broadcast e ch d s = (Inl err, s\<lparr>world := w0\<rparr>)"
    by (simp add: broadcast_other(2))
next
  fix xs msg w0
  assume h: "active_connections s ch = Some xs \<and> dumps e d (world s) = (Inr msg, w0)"
  let ?f = "\<lambda>w c. snd (send_text e c msg w)"
  obtain new w' where
    b: "broadcast e ch d s =
         (Inr (), s\<lparr>active_connections := (active_connections s)(ch \<mapsto> fold remove1 (failed_sends new) xs),
                    world := w', wire := wire s @ new\<rparr>)" and
    fs: "map fst new = xs" and
    al: "\<forall>a\<in>set new. fst (snd a) = msg \<and> (\<exists>wi. snd (snd a) = send_ok e (fst a) msg wi)" and
    wd: "w' = foldl ?f w0 xs" and
    ix: "\<forall>i<length xs. new ! i = (xs ! i, msg, send_ok e (xs ! i) msg (foldl ?f w0 (take i xs)))"
    using broadcast_shape[of s ch xs e d msg w0] h by blast
  have ad: "added s (snd (broadcast e ch d s)) = new" using b by (simp add: added_def)
  show "fst (broadcast e ch d s) = Inr ()" using b by simp
  show "world (snd (broadcast e ch d s)) = foldl ?f w0 xs" using b wd by simp
  show "length (added s (snd (broadcast e ch d s))) = length xs"
    unfolding ad using fs by (metis length_map)
  {
    fix i assume "i < length xs"
    then show "added s (snd (broadcast e ch d s)) ! i =
                 (xs ! i, msg, send_ok e (xs ! i) msg (foldl ?f w0 (take i xs)))"
      unfolding ad using ix by blast
  }
  {
    assume good: "\<forall>c\<in>set xs. \<forall>w. send_ok e c msg w"
    have t: "\<forall>a\<in>set new. a = (fst a, msg, True)"
    proof
      fix a assume a: "a \<in> set new"
      then have "fst a \<in> set xs" using fs by force
      moreover obtain wi where "snd (snd a) = send_ok e (fst a) msg wi" using al a by blast
      ultimately have "snd (snd a)" using good by simp
      moreover have "fst (snd a) = msg" using al a by blast
      ultimately show "a = (fst a, msg, True)" by (cases a) simp
    qed
    have n: "new = map (\<lambda>c. (c, msg, True)) xs"
      using entries_all_true[OF t] fs by simp
    have "\<forall>a\<in>set new. snd (snd a) = (\<lambda>c. True) (fst a)" using t by (metis snd_conv)
    from fold_remove1_failed[OF this] have "fold remove1 (failed_sends new) xs = xs"
      using fs by simp
    then have act: "active_connections (snd (broadcast e ch d s)) = active_connections s"
      using b h by (simp add: map_upd_triv)
    show "added s (snd (broadcast e ch d s)) = map (\<lambda>c. (c, msg, True)) xs"
      unfolding ad by (rule n)
    show "active_connections (snd (broadcast e ch d s)) = active_connections s" by (rule act)
    show "fst (get_connection_count ch (snd (broadcast e ch d s))) = Inr (int (length xs))"
      using act h by (simp add: get_connection_count_def)
  }
qed

theorem broadcast_one_text_witness:
  "active_connections three_alerts ''alerts'' = Some [1, 3, 5] \<and>
   dumps example_env ''test'' (world three_alerts) = (Inr ([CHR 0x22] @ ''test'' @ [CHR 0x22]), 4) \<and>
   world (snd (broadcast example_env ''alerts'' ''test'' three_alerts)) = 7 \<and>
   added three_alerts (snd (broadcast example_env ''alerts'' ''test'' three_alerts)) =
     [(1, [CHR 0x22] @ ''test'' @ [CHR 0x22], True),
      (3, [CHR 0x22] @ ''test'' @ [CHR 0x22], True),
      (5, [CHR 0x22] @ ''test'' @ [CHR 0x22], True)] \<and>
   fst (get_connection_count ''alerts''
          (snd (broadcast example_env ''alerts'' ''test'' three_alerts))) = Inr 3 \<and>
   active_connections three_alerts ''newtopic'' = None \<and>
   broadcast example_env ''newtopic'' ''test'' three_alerts = (Inr (), three_alerts) \<and>
   dumps strict_env ''test'' (world three_alerts) = (Inl TypeError, 4) \<and>
   broadcast strict_env ''alerts'' ''test'' three_alerts = (Inl TypeError, three_alerts\<lparr>world := 4\<rparr>)"
proof -
  have a: "active_connections three_alerts ''alerts'' = Some [1, 3, 5]"
    and n: "active_connections three_alerts ''newtopic'' = None"
    and w: "world three_alerts = 3"
    unfolding three_alerts_eq by simp_all
  have du: "dumps example_env ''test'' (world three_alerts) = (Inr ([CHR 0x22] @ ''test'' @ [CHR 0x22]), 4)"
    unfolding w by (simp add: example_env_def)
  have ds: "dumps strict_env ''test'' (world three_alerts) = (Inl TypeError, 4)"
    unfolding w by (simp add: strict_env_def)
  have good: "\<forall>c\<in>set [1, 3, 5]. \<forall>w. send_ok example_env c ([CHR 0x22] @ ''test'' @ [CHR 0x22]) w"
    by (simp add: send_ok_def example_env_def)
  have fl: "foldl (\<lambda>w c. snd (send_text example_env c ([CHR 0x22] @ ''test'' @ [CHR 0x22]) w)) 4 [1, 3, 5] = 7"
    by (simp add: example_env_def)
  note t = broadcast_one_text[of three_alerts "''alerts''" example_env "''test''"]
  note t0 = broadcast_one_text[of three_alerts "''newtopic''" example_env "''test''"]
  note ts = broadcast_one_text[of three_alerts "''alerts''" strict_env "''test''"]
  from t a du have
    "world (snd (broadcast example_env ''alerts'' ''test'' three_alerts)) =
       foldl (\<lambda>w c. snd (send_text example_env c ([CHR 0x22] @ ''test'' @ [CHR 0x22]) w)) 4 [1, 3, 5]"
    by blast
  then have r1: "world (snd (broadcast example_env ''alerts'' ''test'' three_alerts)) = 7"
    unfolding fl .
  from t a du good have
    "added three_alerts (snd (broadcast example_env ''alerts'' ''test'' three_alerts)) =
       map (\<lambda>c. (c, [CHR 0x22] @ ''test'' @ [CHR 0x22], True)) [1, 3, 5]"
    and "fst (get_connection_count ''alerts''
          (snd (broadcast example_env ''alerts'' ''test'' three_alerts))) = Inr (int (length [1, 3, 5::nat]))"
    by blast+
  then have r2: "added three_alerts (snd (broadcast example_env ''alerts'' ''test'' three_alerts)) =
     [(1, [CHR 0x22] @ ''test'' @ [CHR 0x22], True),
      (3, [CHR 0x22] @ ''test'' @ [CHR 0x22], True),
      (5, [CHR 0x22] @ ''test'' @ [CHR 0x22], True)]"
    and r3: "fst (get_connection_count ''alerts''
          (snd (broadcast example_env ''alerts'' ''test'' three_alerts))) = Inr 3"
    by (simp_all del: run.simps)
  from t0 n have r4: "broadcast example_env ''newtopic'' ''test'' three_alerts = (Inr (), three_alerts)"
    by blast
  from ts a ds have r5: "broadcast strict_env ''alerts'' ''test'' three_alerts = (Inl TypeError, three_alerts\<lparr>world := 4\<rparr>)"
    by blast
  show ?thesis using a du r1 r2 r3 n r4 ds r5 by blast
qed

text \<open>
  The claim as written, one serialisation in every call, fails for a name that is not a
  key: the outside state, which counts the calls made to it, is after the broadcast what
  it was before, where one serialisation would have moved it; and nothing was sent.
\<close>

theorem broadcast_unknown_not_serialised_counterexample:
  "active_connections three_alerts ''newtopic'' = None \<and>
   world (snd (broadcast example_env ''newtopic'' ''test'' three_alerts)) = world three_alerts \<and>
   snd (dumps example_env ''test'' (world three_alerts)) \<noteq> world three_alerts \<and>
   added three_alerts (snd (broadcast example_env ''newtopic'' ''test'' three_alerts)) = []"
proof -
  have n: "active_connections three_alerts ''newtopic'' = None" unfolding three_alerts_eq by simp
  then have b: "broadcast example_env ''newtopic'' ''test'' three_alerts = (Inr (), three_alerts)"
    by (rule broadcast_other(1))
  have d: "snd (dumps example_env ''test'' (world three_alerts)) \<noteq> world three_alerts"
    by (simp add: example_env_def del: run.simps)
  show ?thesis using n d unfolding b by (simp add: added_def del: run.simps)
qed

text \<open>
  C6. In every state reached from \<^verbatim>\<open>__init__\<close> by a history of calls, whatever the
  handshakes and the sends do, \<^verbatim>\<open>get_connection_count\<close> returns the length of the
  channel's list and changes nothing; and that list holds, entry for entry, the
  connections that the specification's registry holds for the channel after the same
  history (added by a completed connect, removed by a disconnect or by a failed send), so
  the count is the size of that collection.
\<close>

theorem count_consistency:
  "get_connection_count ch (run e cs (init w)) =
     (Inr (int (length (members (run e cs (init w)) ch))), run e cs (init w)) \<and>
   mset (members (run e cs (init w)) ch) = spec_registered e cs (init w) (\<lambda>ch. {#}) ch \<and>
   fst (get_connection_count ch (run e cs (init w))) =
     Inr (int (size (spec_registered e cs (init w) (\<lambda>ch. {#}) ch)))"
proof -
  have c: "get_connection_count ch (run e cs (init w)) =
     (Inr (int (length (members (run e cs (init w)) ch))), run e cs (init w))"
    by (simp add: get_connection_count_def members_def)
  have "\<forall>ch. mset (members (init w) ch) = (\<lambda>ch. {#}) ch" by (simp add: members_init)
  then have r: "mset (members (run e cs (init w)) ch) = spec_registered e cs (init w) (\<lambda>ch. {#}) ch"
    by (rule spec_registered_refines)
  have "length (members (run e cs (init w)) ch) = size (spec_registered e cs (init w) (\<lambda>ch. {#}) ch)"
    using r by (metis size_mset)
  then show ?thesis using c r by simp
qed

theorem count_consistency_witness:
  "get_connection_count ''logs'' busy = (Inr 1, busy) \<and>
   spec_registered example_env busy_history (init 0) (\<lambda>ch. {#}) ''logs'' = {#3#} \<and>
   get_connection_count ''alerts'' busy = (Inr 0, busy) \<and>
   spec_registered example_env busy_history (init 0) (\<lambda>ch. {#}) ''alerts'' = {#}"
proof -
  have m: "members busy ''logs'' = [3]" "members busy ''alerts'' = []"
    unfolding busy_eq by (simp_all add: members_def)
  from count_consistency[of "''logs''" example_env busy_history 0]
       count_consistency[of "''alerts''" example_env busy_history 0]
  show ?thesis unfolding m by simp
qed

text \<open>
  C7. For two different channel names, a \<^verbatim>\<open>disconnect\<close> on the first, or a
  \<^verbatim>\<open>broadcast\<close> on the first whatever its sends do, leaves the second's entry in the
  dictionary, and so its connection count, as it was.
\<close>

theorem other_channel_untouched:
  assumes "ch' \<noteq> ch"
  shows "active_connections (snd (disconnect c ch s)) ch' = active_connections s ch' \<and>
         active_connections (snd (broadcast e ch d s)) ch' = active_connections s ch' \<and>
         fst (get_connection_count ch' (snd (disconnect c ch s))) = fst (get_connection_count ch' s) \<and>
         fst (get_connection_count ch' (snd (broadcast e ch d s))) = fst (get_connection_count ch' s)"
proof -
  have d: "active_connections (snd (disconnect c ch s)) ch' = active_connections s ch'"
    using assms by (simp add: disconnect_upd split: option.splits)
  have b: "active_connections (snd (broadcast e ch d s)) ch' = active_connections s ch'"
    using assms by (rule active_broadcast_other)
  show ?thesis using d b by (simp add: get_connection_count_def)
qed

theorem other_channel_untouched_witness:
  "''metrics'' \<noteq> ''alerts'' \<and>
   members alerts_and_metrics ''alerts'' = [1, 2] \<and>
   members (snd (broadcast example_env ''alerts'' ''hello'' alerts_and_metrics)) ''alerts'' = [1] \<and>
   active_connections (snd (broadcast example_env ''alerts'' ''hello'' alerts_and_metrics))
     ''metrics'' = Some [3] \<and>
   active_connections (snd (disconnect 1 ''alerts'' alerts_and_metrics)) ''metrics'' = Some [3] \<and>
   fst (get_connection_count ''metrics''
          (snd (broadcast example_env ''alerts'' ''hello'' alerts_and_metrics))) = Inr 1"
proof -
  have ne: "''metrics'' \<noteq> ''alerts''" by simp
  have a: "active_connections alerts_and_metrics ''metrics'' = Some [3]"
    "members alerts_and_metrics ''alerts'' = [1, 2]"
    unfolding alerts_and_metrics_eq by (simp_all add: members_def)
  have b: "members (snd (broadcast example_env ''alerts'' ''hello'' alerts_and_metrics)) ''alerts'' = [1]"
    unfolding alerts_and_metrics_eq
    by (simp add: broadcast_def example_env_def disconnect_def members_def)
  have c: "fst (get_connection_count ''metrics'' alerts_and_metrics) = Inr 1"
    unfolding get_connection_count_def a by simp
  from other_channel_untouched[OF ne, of 1 alerts_and_metrics example_env "''hello''"] a b c
  show ?thesis by (simp del: run.simps)
qed

text \<open>
  C8. If the handshake inside \<^verbatim>\<open>connect\<close> raises, \<^verbatim>\<open>connect\<close> raises the same
  exception to its caller and registers nothing: the dictionary and the wire are what they
  were before the call (only the transport's own state has moved).
\<close>

theorem connect_handshake_failure:
  assumes "accept e c (world s) = (Inl err, w')"
  shows "connect e c ch s = (Inl err, s\<lparr>world := w'\<rparr>) \<and>
         active_connections (snd (connect e c ch s)) = active_connections s \<and>
         wire (snd (connect e c ch s)) = wire s"
  using assms by (simp add: connect_def)

theorem connect_handshake_failure_witness:
  "accept example_env 0 (world (init 0)) = (Inl HandshakeError, 1) \<and>
   fst (connect example_env 0 ''alerts'' (init 0)) = Inl HandshakeError \<and>
   active_connections (snd (connect example_env 0 ''alerts'' (init 0))) =
     active_connections (init (0::nat)) \<and>
   members (snd (connect example_env 0 ''alerts'' (init 0))) ''alerts'' = []"
proof -
  have h: "accept example_env 0 (world (init 0)) = (Inl HandshakeError, 1)"
    by (simp add: example_env_def init_def)
  from connect_handshake_failure[OF h, of "''alerts''"] h show ?thesis
    by (simp add: members_def init_def)
qed

text \<open>
  C9. When no connection is handed to \<^verbatim>\<open>connect\<close> twice in a history from
  \<^verbatim>\<open>__init__\<close> (each is fresh, so tracked nowhere), then after the history no channel's
  list has a repeated entry, and a connection that was in a channel's list at some point
  of the history and out of it at a later point is not in it at the end.
\<close>

theorem fresh_connections_invariant:
  assumes "distinct (connected cs)"
  shows "distinct (members (run e cs (init w)) ch) \<and>
         (\<forall>i j c. i \<le> j \<and> j \<le> length cs \<and>
                  c \<in> set (members (run e (take i cs) (init w)) ch) \<and>
                  c \<notin> set (members (run e (take j cs) (init w)) ch) \<longrightarrow>
                  c \<notin> set (members (run e cs (init w)) ch))"
proof (intro conjI allI impI)
  show "distinct (members (run e cs (init w)) ch)"
    using assms by (rule distinct_run) (simp_all add: members_init)
next
  fix i j c
  assume h: "i \<le> j \<and> j \<le> length cs \<and>
             c \<in> set (members (run e (take i cs) (init w)) ch) \<and>
             c \<notin> set (members (run e (take j cs) (init w)) ch)"
  have "c \<in> set (connected (take i cs))"
    using h members_run_subset[of e "take i cs" "init w" ch] by (auto simp add: members_init)
  moreover have "take j cs = take i cs @ take (j - i) (drop i cs)"
    using h take_add[of i "j - i" cs] by simp
  ultimately have early: "c \<in> set (connected (take j cs))"
    using connected_append[of "take i cs" "take (j - i) (drop i cs)"] by simp
  have "connected cs = connected (take j cs) @ connected (drop j cs)"
    using connected_append[of "take j cs" "drop j cs"] by simp
  then have late: "c \<notin> set (connected (drop j cs))" using assms early by auto
  have "run e cs (init w) = run e (drop j cs) (run e (take j cs) (init w))"
    using run_append[of e "take j cs" "drop j cs" "init w"] by simp
  then show "c \<notin> set (members (run e cs (init w)) ch)"
    using members_run_subset[of e "drop j cs" "run e (take j cs) (init w)" ch] h late by auto
qed

theorem fresh_connections_invariant_witness:
  "distinct (connected busy_history) \<and>
   distinct (members busy ''alerts'') \<and>
   (2::nat) \<le> 3 \<and> 3 \<le> length busy_history \<and>
   2 \<in> set (members (run example_env (take 2 busy_history) (init 0)) ''alerts'') \<and>
   2 \<notin> set (members (run example_env (take 3 busy_history) (init 0)) ''alerts'') \<and>
   2 \<notin> set (members busy ''alerts'') \<and>
   distinct (members busy ''logs'') \<and> members busy ''logs'' = [3]"
proof -
  have d: "distinct (connected busy_history)" by simp
  have le: "(2::nat) \<le> 3" "3 \<le> length busy_history" by simp_all
  have m2: "2 \<in> set (members (run example_env (take 2 busy_history) (init 0)) ''alerts'')"
    by (simp add: members_def connect_def example_env_def init_def Let_def)
  have m3: "2 \<notin> set (members (run example_env (take 3 busy_history) (init 0)) ''alerts'')"
    by (simp add: members_def connect_def broadcast_def disconnect_def example_env_def init_def Let_def)
  have l: "members busy ''logs'' = [3]" unfolding busy_eq by (simp add: members_def)
  note t = fresh_connections_invariant[where e = example_env and w = "0::nat", OF d]
  from t[of "''alerts''"] have a: "distinct (members busy ''alerts'')" by blast
  from t[of "''logs''"] have b: "distinct (members busy ''logs'')" by blast
  from t[of "''alerts''"] le m2 m3 have "2 \<notin> set (members busy ''alerts'')" by blast
  then show ?thesis using d le m2 m3 a b l by blast
qed

text \<open>
  C10. After any history from \<^verbatim>\<open>__init__\<close> with no \<^verbatim>\<open>connect\<close> and no
  \<^verbatim>\<open>broadcast\<close> on a channel name, \<^verbatim>\<open>get_connection_count\<close> on that name returns 0
  without raising and leaves the state as it was; for a name outside the four of
  \<^verbatim>\<open>__init__\<close> the name is still not a key afterwards.
\<close>

theorem count_of_unseen:
  assumes "unseen ch cs" and "s = run e cs (init w)"
  shows "get_connection_count ch s = (Inr 0, s) \<and>
         (ch \<notin> {''alerts'', ''metrics'', ''network_traffic'', ''logs''} \<longrightarrow>
            active_connections (snd (get_connection_count ch s)) ch = None)"
proof -
  have a: "active_connections s ch = active_connections (init w) ch"
    unfolding assms(2)
    using unseen_never_connected[OF assms(1)] members_init by (rule never_connected_same)
  then have m: "members s ch = []" by (simp add: members_def init_def)
  have c: "get_connection_count ch s = (Inr 0, s)"
    using m by (simp add: get_connection_count_def members_def)
  have "active_connections s ch = None"
    if "ch \<notin> {''alerts'', ''metrics'', ''network_traffic'', ''logs''}"
    using that a by (simp add: init_def)
  then show ?thesis using c by simp
qed

theorem count_of_unseen_witness:
  "unseen ''newtopic'' busy_history \<and>
   get_connection_count ''newtopic'' busy = (Inr 0, busy) \<and>
   ''newtopic'' \<notin> {''alerts'', ''metrics'', ''network_traffic'', ''logs''} \<and>
   active_connections (snd (get_connection_count ''newtopic'' busy)) ''newtopic'' = None \<and>
   unseen ''network_traffic'' busy_history \<and>
   get_connection_count ''network_traffic'' busy = (Inr 0, busy)"
proof -
  have u: "unseen ''newtopic'' busy_history" "unseen ''network_traffic'' busy_history"
    by (simp_all add: unseen_def)
  have n: "''newtopic'' \<notin> {''alerts'', ''metrics'', ''network_traffic'', ''logs''}" by simp
  from count_of_unseen[where e = example_env and w = "0::nat", OF u(1) refl]
       count_of_unseen[where e = example_env and w = "0::nat", OF u(2) refl] u n
  show ?thesis by blast
qed

end
